theory Spec2Isabelle
  imports Main
begin

section \<open>CustomConsole of jest-util\<close>

text \<open>
  A shallow embedding of the class \<open>CustomConsole\<close> of
  \<^verbatim>\<open>packages/jest-util/src/Console.js\<close>.  The file holds two revisions of the class; the
  later one (the second class in the file, with \<open>_generateIndentation\<close> and \<open>exception\<close>)
  is the one the test suite \<^verbatim>\<open>Console-test.js\<close> exercises, and it is the one embedded
  here.  Line numbers in the comments below refer to that file.

  Conventions of the embedding:
  \<^item> A JavaScript string is the list of its UTF-16 code units, so that \<open>length\<close> is the
    \<open>.length\<close> of the source.  Code units are natural numbers.
  \<^item> The instance is a record; every method takes the instance and returns an
    \<open>outcome\<close>: it returns normally with the new instance, or it throws with the
    instance as the throw left it.
  \<^item> The output stream is the list of the calls made on it, oldest first.
  \<^item> Numbers that count (\<open>_groupLevel\<close>, the counts, the widths) are integers; the
    source's doubles are exact on them below \<open>2^53\<close>.
  \<^item> Names that start with an underscore in the source (\<open>_log\<close>, \<open>_counts\<close>, ...) lose
    it or get the prefix \<open>p_\<close>; a name that clashes with a constant of HOL gets the
    suffix \<open>_js\<close>.
\<close>

subsection \<open>Strings\<close>

type_synonym jsstring = "nat list"

definition ascii :: "string \<Rightarrow> jsstring" where
  "ascii s = map of_char s"

text \<open>\<open>String.prototype.repeat\<close>: a negative count is a \<open>RangeError\<close>.\<close>

datatype js_error = TypeError | RangeError

definition repeat :: "jsstring \<Rightarrow> int \<Rightarrow> js_error + jsstring" where
  "repeat str n = (if n < 0 then Inl RangeError else Inr (concat (replicate (nat n) str)))"

text \<open>\<open>str.substring(0, width)\<close>: a negative \<open>width\<close> counts as 0, one beyond the
  length as the length.\<close>

definition substring0 :: "jsstring \<Rightarrow> int \<Rightarrow> jsstring" where
  "substring0 str width = take (nat width) str"

text \<open>Decimal digits of a natural number, and \<open>Array.prototype.join\<close>.\<close>

fun digits :: "nat \<Rightarrow> jsstring" where
  "digits n = (if n < 10 then [48 + n] else digits (n div 10) @ [48 + n mod 10])"

declare digits.simps [simp del]

definition int_to_string :: "int \<Rightarrow> jsstring" where
  "int_to_string i = (if i < 0 then ascii ''-'' @ digits (nat (- i)) else digits (nat i))"

fun join :: "jsstring \<Rightarrow> jsstring list \<Rightarrow> jsstring" where
  "join sep [] = []"
| "join sep [x] = x"
| "join sep (x # y # ys) = x @ sep @ join sep (y # ys)"

subsection \<open>Values\<close>

text \<open>
  The values \<open>table\<close>, \<open>assert\<close> and the logging methods receive.  Numbers are the
  integers; an array is dense; an object is the list of its own enumerable properties in
  the order \<open>Object.keys\<close> lists them.  Values with cycles, accessors or a \<open>toJSON\<close>
  method are outside this type.
\<close>

datatype jsvalue =
    Undefined
  | Null
  | Boolean bool
  | Number int
  | Str jsstring
  | Function
  | Array "jsvalue list"
  | Object "(jsstring \<times> jsvalue) list"

fun typeof :: "jsvalue \<Rightarrow> string" where
  "typeof Undefined = ''undefined''"
| "typeof Null = ''object''"
| "typeof (Boolean b) = ''boolean''"
| "typeof (Number n) = ''number''"
| "typeof (Str s) = ''string''"
| "typeof Function = ''function''"
| "typeof (Array xs) = ''object''"
| "typeof (Object kvs) = ''object''"

text \<open>\<open>ToBoolean\<close>: what \<open>if (x)\<close> and \<open>!x\<close> test.\<close>

fun truthy :: "jsvalue \<Rightarrow> bool" where
  "truthy Undefined = False"
| "truthy Null = False"
| "truthy (Boolean b) = b"
| "truthy (Number n) = (n \<noteq> 0)"
| "truthy (Str s) = (s \<noteq> [])"
| "truthy Function = True"
| "truthy (Array xs) = True"
| "truthy (Object kvs) = True"

definition Object_keys :: "jsvalue \<Rightarrow> jsstring list" where
  "Object_keys data =
     (case data of
        Array xs \<Rightarrow> map digits [0 ..< length xs]
      | Object kvs \<Rightarrow> map fst kvs
      | _ \<Rightarrow> [])"

definition Object_values :: "jsvalue \<Rightarrow> jsvalue list" where
  "Object_values data =
     (case data of
        Array xs \<Rightarrow> xs
      | Object kvs \<Rightarrow> map snd kvs
      | _ \<Rightarrow> [])"

text \<open>\<open>data[key]\<close> for a key of \<open>Object.keys(data)\<close>.\<close>

definition get_property :: "jsvalue \<Rightarrow> jsstring \<Rightarrow> jsvalue" where
  "get_property data key =
     (case map_of (zip (Object_keys data) (Object_values data)) key of
        Some v \<Rightarrow> v
      | None \<Rightarrow> Undefined)"

subsection \<open>JSON.stringify\<close>

text \<open>
  \<open>JSON.stringify(value)\<close> with no replacer and no indentation (ECMAScript 5.1,
  15.12.3).  The result is \<open>undefined\<close> (here \<open>None\<close>) for \<open>undefined\<close> and for a
  function; inside an array such an element is written \<open>null\<close>, inside an object the
  property is left out.  \<open>quote\<close> is the standard's \<open>Quote\<close>; 34 is the double
  quote and 92 the backslash.
\<close>

definition hex_digit :: "nat \<Rightarrow> nat" where
  "hex_digit d = (if d < 10 then 48 + d else 87 + d)"

definition quote_unit :: "nat \<Rightarrow> jsstring" where
  "quote_unit c =
     (if c = 34 then [92, 34]
      else if c = 92 then [92, 92]
      else if c = 8 then 92 # ascii ''b''
      else if c = 12 then 92 # ascii ''f''
      else if c = 10 then 92 # ascii ''n''
      else if c = 13 then 92 # ascii ''r''
      else if c = 9 then 92 # ascii ''t''
      else if c < 32 then 92 # ascii ''u00'' @ [hex_digit (c div 16), hex_digit (c mod 16)]
      else [c])"

definition quote :: "jsstring \<Rightarrow> jsstring" where
  "quote s = [34] @ concat (map quote_unit s) @ [34]"

fun JSON_stringify :: "jsvalue \<Rightarrow> jsstring option" where
  "JSON_stringify Undefined = None"
| "JSON_stringify Function = None"
| "JSON_stringify Null = Some (ascii ''null'')"
| "JSON_stringify (Boolean b) = Some (ascii (if b then ''true'' else ''false''))"
| "JSON_stringify (Number n) = Some (int_to_string n)"
| "JSON_stringify (Str s) = Some (quote s)"
| "JSON_stringify (Array xs) =
     Some (ascii ''['' @
       join (ascii '','')
         (map (\<lambda>x. case JSON_stringify x of None \<Rightarrow> ascii ''null'' | Some t \<Rightarrow> t) xs)
       @ ascii '']'')"
| "JSON_stringify (Object kvs) =
     Some (ascii ''{'' @
       join (ascii '','')
         (concat (map (\<lambda>(k, v). case JSON_stringify v of
                                  None \<Rightarrow> []
                                | Some t \<Rightarrow> [quote k @ ascii '':'' @ t]) kvs))
       @ ascii ''}'')"

subsection \<open>util.format\<close>

text \<open>
  \<open>util.format\<close> of Node.js returns a single string argument as it is.  What it makes
  of any other argument list (format specifiers, \<open>util.inspect\<close>) is not this
  repository's code: it is the parameter \<open>fmt\<close> of every method that formats.
\<close>

definition format :: "(jsvalue list \<Rightarrow> jsstring) \<Rightarrow> jsvalue list \<Rightarrow> jsstring" where
  "format fmt args = (case args of [Str f] \<Rightarrow> f | _ \<Rightarrow> fmt args)"

subsection \<open>The instance\<close>

datatype logtype = Log | Info | Warn | Error

text \<open>A call on \<open>_stdout\<close>: \<open>clearLine(stream)\<close> of \<^verbatim>\<open>./clear_line\<close>, or a write of a
  string.\<close>

datatype stream_call = ClearLine | Write jsstring

text \<open>A number held in \<open>_counts\<close>.\<close>

datatype number = NaN | Num int

text \<open>
  The fields of lines 168-172.  \<open>counts\<close> holds the own properties of the object
  \<open>this._counts\<close>, which the constructor creates as \<open>{}\<close>: reading a name it does not
  hold goes on to \<open>Object.prototype\<close> (see \<open>get_count\<close>).
\<close>

record console =
  formatBuffer :: "logtype \<Rightarrow> jsstring \<Rightarrow> jsstring"
  groupLevel :: int
  counts :: "jsstring \<rightharpoonup> number"
  outWidth :: int
  stdout :: "stream_call list"

datatype outcome = Returns console | Throws js_error console

fun state_of :: "outcome \<Rightarrow> console" where
  "state_of (Returns s) = s"
| "state_of (Throws e s) = s"

text \<open>
  The constructor, lines 174-190.  \<open>formatBuffer\<close> is optional and defaults to
  \<open>(type, message) => message\<close>; \<open>columns\<close> is \<open>Some\<close> of \<open>stdout.columns\<close> when
  \<open>stdout\<close> is a \<open>tty$WriteStream\<close>, and the width is 80 otherwise.
\<close>

definition new_CustomConsole ::
  "int option \<Rightarrow> (logtype \<Rightarrow> jsstring \<Rightarrow> jsstring) option \<Rightarrow> console" where
  "new_CustomConsole columns formatBuffer_arg =
     \<lparr> formatBuffer = (case formatBuffer_arg of Some f \<Rightarrow> f | None \<Rightarrow> (\<lambda>ty message. message)),
       groupLevel = 0,
       counts = Map.empty,
       outWidth = (case columns of Some c \<Rightarrow> c | None \<Rightarrow> 80),
       stdout = [] \<rparr>"

subsection \<open>Logging\<close>

text \<open>\<open>_generateIndentation\<close>, lines 192-194.\<close>

definition generateIndentation :: "console \<Rightarrow> js_error + jsstring" where
  "generateIndentation s = repeat (ascii ''> '') (groupLevel s)"

definition clearLine :: "console \<Rightarrow> console" where
  "clearLine s = s\<lparr>stdout := stdout s @ [ClearLine]\<rparr>"

text \<open>\<open>super.log(str)\<close> with one string: \<open>Console.prototype.log\<close> writes it and a line
  feed.\<close>

definition super_log :: "jsstring \<Rightarrow> console \<Rightarrow> console" where
  "super_log str s = s\<lparr>stdout := stdout s @ [Write (str @ [10])]\<rparr>"

text \<open>\<open>_log\<close>, lines 196-201.\<close>

definition p_log :: "logtype \<Rightarrow> jsstring \<Rightarrow> console \<Rightarrow> outcome" where
  "p_log ty message s =
     (let s1 = clearLine s in
      case generateIndentation s1 of
        Inl e \<Rightarrow> Throws e s1
      | Inr indentation \<Rightarrow>
          Returns (super_log (indentation @ formatBuffer s1 ty message) s1))"

text \<open>\<open>log\<close>, \<open>info\<close>, \<open>warn\<close>, \<open>error\<close>, \<open>exception\<close>: lines 246, 242, 315, 219, 223.\<close>

definition log :: "(jsvalue list \<Rightarrow> jsstring) \<Rightarrow> jsvalue list \<Rightarrow> console \<Rightarrow> outcome" where
  "log fmt args s = p_log Log (format fmt args) s"

definition info :: "(jsvalue list \<Rightarrow> jsstring) \<Rightarrow> jsvalue list \<Rightarrow> console \<Rightarrow> outcome" where
  "info fmt args s = p_log Info (format fmt args) s"

definition warn :: "(jsvalue list \<Rightarrow> jsstring) \<Rightarrow> jsvalue list \<Rightarrow> console \<Rightarrow> outcome" where
  "warn fmt args s = p_log Warn (format fmt args) s"

definition error :: "(jsvalue list \<Rightarrow> jsstring) \<Rightarrow> jsvalue list \<Rightarrow> console \<Rightarrow> outcome" where
  "error fmt args s = p_log Error (format fmt args) s"

definition exception :: "(jsvalue list \<Rightarrow> jsstring) \<Rightarrow> jsvalue list \<Rightarrow> console \<Rightarrow> outcome" where
  "exception fmt args s = error fmt args s"

text \<open>\<open>assert\<close>, lines 203-207.\<close>

definition assert ::
  "(jsvalue list \<Rightarrow> jsstring) \<Rightarrow> jsvalue \<Rightarrow> jsvalue list \<Rightarrow> console \<Rightarrow> outcome" where
  "assert fmt assertion args s =
     (if \<not> truthy assertion then log fmt args s else Returns s)"

text \<open>\<open>clear\<close> and \<open>getBuffer\<close>, lines 209 and 319-321.\<close>

definition clear :: "console \<Rightarrow> outcome" where
  "clear s = Returns s"

definition getBuffer :: "console \<Rightarrow> jsvalue" where
  "getBuffer s = Null"

subsection \<open>Groups\<close>

text \<open>
  \<open>group\<close>, lines 227-232.  The label is optional (\<open>?string\<close>); \<open>if (label)\<close> is
  false for no label and for the empty string.
\<close>

definition group ::
  "(jsvalue list \<Rightarrow> jsstring) \<Rightarrow> jsstring option \<Rightarrow> console \<Rightarrow> outcome" where
  "group fmt label s =
     (let s1 = s\<lparr>groupLevel := groupLevel s + 1\<rparr> in
      case label of
        None \<Rightarrow> Returns s1
      | Some l \<Rightarrow> if truthy (Str l) then log fmt [Str l] s1 else Returns s1)"

text \<open>
  \<open>groupCollapsed\<close>, lines 234-236.  The method declares no parameter and calls
  \<open>this.group()\<close> with none: \<open>label_arg\<close> is what a caller passes all the same, and
  it is dropped.
\<close>

definition groupCollapsed ::
  "(jsvalue list \<Rightarrow> jsstring) \<Rightarrow> jsstring option \<Rightarrow> console \<Rightarrow> outcome" where
  "groupCollapsed fmt label_arg s = group fmt None s"

text \<open>\<open>groupEnd\<close>, lines 238-240.\<close>

definition groupEnd :: "console \<Rightarrow> outcome" where
  "groupEnd s = Returns (s\<lparr>groupLevel := groupLevel s - 1\<rparr>)"

text \<open>
  A sequence of group calls.  A call that throws leaves the instance as it was at the
  throw, and the next call of the sequence goes on from there.
\<close>

datatype group_call = Group "jsstring option" | GroupCollapsed "jsstring option" | GroupEnd

fun group_step :: "(jsvalue list \<Rightarrow> jsstring) \<Rightarrow> group_call \<Rightarrow> console \<Rightarrow> outcome" where
  "group_step fmt (Group label) s = group fmt label s"
| "group_step fmt (GroupCollapsed label) s = groupCollapsed fmt label s"
| "group_step fmt GroupEnd s = groupEnd s"

fun group_calls :: "(jsvalue list \<Rightarrow> jsstring) \<Rightarrow> group_call list \<Rightarrow> console \<Rightarrow> console" where
  "group_calls fmt [] s = s"
| "group_calls fmt (c # cs) s = group_calls fmt cs (state_of (group_step fmt c s))"

fun opens :: "group_call \<Rightarrow> bool" where
  "opens (Group label) = True"
| "opens (GroupCollapsed label) = True"
| "opens GroupEnd = False"

subsection \<open>Counters\<close>

text \<open>
  \<open>this._counts\<close> is an ordinary object, so \<open>this._counts[label]\<close> finds the
  properties of \<open>Object.prototype\<close> under their names: its functions, and under
  \<open>__proto__\<close> the prototype object itself.  An assignment to an inherited function's
  name creates an own property; an assignment of a number to \<open>__proto__\<close> runs the
  setter of \<open>Object.prototype\<close>, which ignores it.
\<close>

definition Object_prototype_functions :: "jsstring list" where
  "Object_prototype_functions =
     map ascii
       [''constructor'', ''hasOwnProperty'', ''isPrototypeOf'', ''propertyIsEnumerable'',
        ''toLocaleString'', ''toString'', ''valueOf'', ''__defineGetter__'',
        ''__defineSetter__'', ''__lookupGetter__'', ''__lookupSetter__'']"

datatype property =
    NoProperty
  | OwnNumber number
  | PrototypeFunction jsstring
  | PrototypeObject

definition get_count :: "(jsstring \<rightharpoonup> number) \<Rightarrow> jsstring \<Rightarrow> property" where
  "get_count c label =
     (case c label of
        Some n \<Rightarrow> OwnNumber n
      | None \<Rightarrow>
          if label = ascii ''__proto__'' then PrototypeObject
          else if label \<in> set Object_prototype_functions then PrototypeFunction label
          else NoProperty)"

definition set_count :: "(jsstring \<rightharpoonup> number) \<Rightarrow> jsstring \<Rightarrow> number \<Rightarrow> (jsstring \<rightharpoonup> number)" where
  "set_count c label n = (if label = ascii ''__proto__'' then c else c(label \<mapsto> n))"

text \<open>\<open>ToBoolean\<close>, \<open>ToNumber\<close> and \<open>ToString\<close> of what \<open>this._counts[label]\<close> reads.\<close>

fun to_boolean :: "property \<Rightarrow> bool" where
  "to_boolean NoProperty = False"
| "to_boolean (OwnNumber NaN) = False"
| "to_boolean (OwnNumber (Num n)) = (n \<noteq> 0)"
| "to_boolean (PrototypeFunction name) = True"
| "to_boolean PrototypeObject = True"

fun to_number :: "property \<Rightarrow> number" where
  "to_number NoProperty = NaN"
| "to_number (OwnNumber n) = n"
| "to_number (PrototypeFunction name) = NaN"
| "to_number PrototypeObject = NaN"

fun to_string :: "property \<Rightarrow> jsstring" where
  "to_string NoProperty = ascii ''undefined''"
| "to_string (OwnNumber NaN) = ascii ''NaN''"
| "to_string (OwnNumber (Num n)) = int_to_string n"
| "to_string (PrototypeFunction name) = ascii ''function '' @ name @ ascii ''() { [native code] }''"
| "to_string PrototypeObject = ascii ''[object Object]''"

text \<open>The \<open>++\<close> of line 215.\<close>

fun increment :: "number \<Rightarrow> number" where
  "increment NaN = NaN"
| "increment (Num n) = Num (n + 1)"

text \<open>
  \<open>count\<close>, lines 211-217.  The parameter defaults to \<open>'<no label>'\<close> when the
  caller passes none.
\<close>

definition count :: "jsstring option \<Rightarrow> console \<Rightarrow> outcome" where
  "count label_arg s =
     (let label = (case label_arg of None \<Rightarrow> ascii ''<no label>'' | Some l \<Rightarrow> l);
          c1 = (if \<not> to_boolean (get_count (counts s) label)
                then set_count (counts s) label (Num 0)
                else counts s);
          c2 = set_count c1 label (increment (to_number (get_count c1 label)))
      in p_log Log (label @ ascii '': '' @ to_string (get_count c2 label))
           (s\<lparr>counts := c2\<rparr>))"

fun count_calls :: "jsstring option list \<Rightarrow> console \<Rightarrow> console" where
  "count_calls [] s = s"
| "count_calls (l # ls) s = count_calls ls (state_of (count l s))"

subsection \<open>Tables\<close>

text \<open>\<open>pad\<close>, lines 257-262.  On the second branch \<open>width - str.length\<close> is not
  negative, so \<open>repeat\<close> does not throw there.\<close>

definition pad :: "jsstring \<Rightarrow> int \<Rightarrow> jsstring" where
  "pad str width =
     (if int (length str) > width then substring0 str width
      else str @ replicate (nat (width - int (length str))) 32)"

text \<open>
  \<open>max\<close>, lines 265-274.  \<open>maxEval\<close> starts as \<open>-Infinity\<close> and is a number from
  then on, so the test \<open>maxEval === null\<close> is false at every element and the loop
  takes \<open>Math.max\<close> each time.  The evaluator may throw.
\<close>

datatype extended = NegInfinity | Finite int

fun Math_max :: "extended \<Rightarrow> int \<Rightarrow> int" where
  "Math_max NegInfinity n = n"
| "Math_max (Finite m) n = max m n"

fun max_loop :: "extended \<Rightarrow> 'a list \<Rightarrow> ('a \<Rightarrow> js_error + int) \<Rightarrow> js_error + extended" where
  "max_loop maxEval [] evaluator = Inr maxEval"
| "max_loop maxEval (el # arr) evaluator =
     (case evaluator el of
        Inl e \<Rightarrow> Inl e
      | Inr evaluatedValue \<Rightarrow> max_loop (Finite (Math_max maxEval evaluatedValue)) arr evaluator)"

definition max_js :: "'a list \<Rightarrow> ('a \<Rightarrow> js_error + int) \<Rightarrow> js_error + extended" where
  "max_js arr evaluator = max_loop NegInfinity arr evaluator"

text \<open>\<open>stringify\<close>, lines 277-278: \<open>.replace\<close> on \<open>undefined\<close> is a \<open>TypeError\<close>; 10 is
  the line feed.\<close>

definition stringify :: "jsvalue \<Rightarrow> js_error + jsstring" where
  "stringify v =
     (case JSON_stringify v of
        None \<Rightarrow> Inl TypeError
      | Some str \<Rightarrow> Inr (filter (\<lambda>c. c \<noteq> 10) str))"

text \<open>Lines 281-286: the widths of the two columns before the table is made to fit.\<close>

definition column_widths :: "jsvalue \<Rightarrow> js_error + (int \<times> int)" where
  "column_widths data =
     (let keys = Object_keys data in
      case max_js keys (\<lambda>el. Inr (int (length el))) of
        Inl e \<Rightarrow> Inl e
      | Inr maxKeyLen \<Rightarrow>
          (case max_js (Object_values data)
                  (\<lambda>el. case stringify el of Inl e \<Rightarrow> Inl e | Inr str \<Rightarrow> Inr (int (length str))) of
             Inl e \<Rightarrow> Inl e
           | Inr maxValueWidth \<Rightarrow>
               Inr (Math_max maxKeyLen (int (length (ascii ''(index)''))),
                    Math_max maxValueWidth (int (length (ascii ''Value''))))))"

text \<open>The loop of lines 290-297, from the widths it starts with to the widths it ends
  with; \<open>totalTableWidth\<close> is \<open>keyWidth + valueWidth + 7\<close> throughout.\<close>

function fit :: "int \<Rightarrow> int \<Rightarrow> int \<Rightarrow> int \<times> int" where
  "fit w keyWidth valueWidth =
     (if keyWidth + valueWidth + 7 > w
      then (if valueWidth > keyWidth then fit w keyWidth (valueWidth - 1)
            else fit w (keyWidth - 1) valueWidth)
      else (keyWidth, valueWidth))"
  by pat_completeness auto
termination
  by (relation "measure (\<lambda>(w, keyWidth, valueWidth). nat (keyWidth + valueWidth + 7 - w))") auto

declare fit.simps [simp del]

text \<open>
  Lines 299-312: the strings the table is drawn with, each in the order it is computed
  and logged.  An entry is \<open>Inl\<close> when computing the string throws; 8254 is the
  overline, U+203E.
\<close>

definition table_rows :: "jsvalue \<Rightarrow> jsstring list \<Rightarrow> int \<Rightarrow> int \<Rightarrow> (js_error + jsstring) list" where
  "table_rows data keys keyWidth valueWidth =
     (let totalTableWidth = keyWidth + valueWidth + 7;
          keyHeader = pad (ascii ''(index)'') keyWidth;
          valueHeader = pad (ascii ''Value'') valueWidth
      in
        [repeat (ascii ''_'') totalTableWidth,
         Inr (ascii ''| '' @ keyHeader @ ascii '' | '' @ valueHeader @ ascii '' |''),
         (case repeat (ascii ''-'') (keyWidth + 2) of
            Inl e \<Rightarrow> Inl e
          | Inr k \<Rightarrow>
              (case repeat (ascii ''-'') (valueWidth + 2) of
                 Inl e \<Rightarrow> Inl e
               | Inr v \<Rightarrow> Inr (ascii ''|'' @ k @ ascii ''|'' @ v @ ascii ''|'')))]
        @ map (\<lambda>key. case stringify (get_property data key) of
                        Inl e \<Rightarrow> Inl e
                      | Inr v \<Rightarrow>
                          Inr (ascii ''| '' @ pad key keyWidth @ ascii '' | ''
                               @ pad v valueWidth @ ascii '' |'')) keys
        @ [repeat [8254] totalTableWidth])"

text \<open>The calls \<open>this.log(str)\<close> of lines 303-312, one after the other: the first
  string that throws, or the first \<open>log\<close> that throws, ends the method.\<close>

fun log_all :: "(jsvalue list \<Rightarrow> jsstring) \<Rightarrow> (js_error + jsstring) list \<Rightarrow> console \<Rightarrow> outcome" where
  "log_all fmt [] s = Returns s"
| "log_all fmt (Inl e # rows) s = Throws e s"
| "log_all fmt (Inr str # rows) s =
     (case log fmt [Str str] s of
        Throws e s1 \<Rightarrow> Throws e s1
      | Returns s1 \<Rightarrow> log_all fmt rows s1)"

text \<open>\<open>table\<close>, lines 250-313.  The second parameter, \<open>columns\<close>, is not used by the
  method and is left out.\<close>

definition table :: "(jsvalue list \<Rightarrow> jsstring) \<Rightarrow> jsvalue \<Rightarrow> console \<Rightarrow> outcome" where
  "table fmt data s =
     (if \<not> truthy data \<or> typeof data \<noteq> ''object'' then Returns s
      else
        case column_widths data of
          Inl e \<Rightarrow> Throws e s
        | Inr (keyWidth0, valueWidth0) \<Rightarrow>
            (case fit (outWidth s) keyWidth0 valueWidth0 of
               (keyWidth, valueWidth) \<Rightarrow>
                 log_all fmt (table_rows data (Object_keys data) keyWidth valueWidth) s))"

section \<open>Properties\<close>

subsection \<open>Logging and assertions\<close>

text \<open>What \<open>_log\<close> does, by the sign of \<open>_groupLevel\<close>: with a negative level
  \<open>'> '.repeat\<close> throws after the line was cleared and before anything is written.\<close>

lemma p_log_eq:
  "p_log ty message s =
     (if 0 \<le> groupLevel s
      then Returns (s\<lparr>stdout := stdout s @
             [ClearLine,
              Write (concat (replicate (nat (groupLevel s)) (ascii ''> ''))
                     @ formatBuffer s ty message @ [10])]\<rparr>)
      else Throws RangeError (s\<lparr>stdout := stdout s @ [ClearLine]\<rparr>))"
  by (simp add: p_log_def generateIndentation_def clearLine_def super_log_def repeat_def)

text \<open>
  C1.  With a group level that is not negative, \<open>assert(c, ...args)\<close> with a falsy
  \<open>c\<close> writes one line, the one \<open>log(...args)\<close> writes: the indentation, then the
  formatter's result for the type \<open>log\<close> and the formatted arguments.  Nothing but
  the stream changes.  With a truthy \<open>c\<close> the method returns and the instance is as
  it was.
\<close>

theorem assert_logs_iff_falsy:
  assumes "0 \<le> groupLevel s"
  shows "assert fmt assertion args s =
           (if truthy assertion then Returns s
            else Returns (s\<lparr>stdout := stdout s @
                   [ClearLine,
                    Write (concat (replicate (nat (groupLevel s)) (ascii ''> ''))
                           @ formatBuffer s Log (format fmt args) @ [10])]\<rparr>))
         \<and> (\<not> truthy assertion \<longrightarrow> assert fmt assertion args s = log fmt args s)"
  using assms by (simp add: assert_def log_def p_log_eq)

theorem assert_logs_iff_falsy_witness:
  "0 \<le> groupLevel (new_CustomConsole None None)
   \<and> assert (\<lambda>args. []) (Boolean False) [Str (ascii ''x'')] (new_CustomConsole None None)
       = Returns (new_CustomConsole None None\<lparr>stdout := [ClearLine, Write (ascii ''x'' @ [10])]\<rparr>)
   \<and> assert (\<lambda>args. []) (Boolean True) [Str (ascii ''x'')] (new_CustomConsole None None)
       = Returns (new_CustomConsole None None)"
  using assert_logs_iff_falsy [of "new_CustomConsole None None" "\<lambda>args. []" "Boolean False"
          "[Str (ascii ''x'')]"]
        assert_logs_iff_falsy [of "new_CustomConsole None None" "\<lambda>args. []" "Boolean True"
          "[Str (ascii ''x'')]"]
  by (simp add: new_CustomConsole_def format_def)

subsection \<open>Groups\<close>

lemma group_step_level:
  "groupLevel (state_of (group_step fmt c s)) = groupLevel s + (if opens c then 1 else - 1)"
  by (cases c)
     (simp_all add: group_def groupCollapsed_def groupEnd_def log_def p_log_eq Let_def
        split: option.split)

lemma group_step_formatBuffer:
  "formatBuffer (state_of (group_step fmt c s)) = formatBuffer s"
  by (cases c)
     (simp_all add: group_def groupCollapsed_def groupEnd_def log_def p_log_eq Let_def
        split: option.split)

lemma group_calls_level:
  "groupLevel (group_calls fmt cs s) =
     groupLevel s + int (length (filter opens cs)) - int (length (filter (\<lambda>c. \<not> opens c) cs))"
  by (induction cs arbitrary: s) (simp_all add: group_step_level)

lemma group_calls_formatBuffer:
  "formatBuffer (group_calls fmt cs s) = formatBuffer s"
  by (induction cs arbitrary: s) (simp_all add: group_step_formatBuffer)

text \<open>
  C3.  Take an instance at group level 0 and any sequence \<open>cs\<close> of calls of
  \<open>group\<close>, \<open>groupCollapsed\<close> and \<open>groupEnd\<close>; let \<open>n\<close> be the number of the first
  two less the number of the third.  A call of \<open>log\<close>, \<open>info\<close>, \<open>warn\<close> or
  \<open>error\<close> after the sequence writes one line when \<open>n\<close> is not negative: \<open>'> '\<close>
  \<open>n\<close> times, then the formatter's result, and nothing else.  When \<open>n\<close> is negative
  the call throws a \<open>RangeError\<close> and writes no line, so every line that is written
  has the prefix.
\<close>

theorem indentation_after_group_calls:
  fixes cs :: "group_call list"
  defines "n \<equiv> int (length (filter opens cs)) - int (length (filter (\<lambda>c. \<not> opens c) cs))"
  assumes "groupLevel s = 0"
    and "s' = group_calls fmt cs s"
    and "(method_js, ty) \<in> {(log, Log), (info, Info), (warn, Warn), (error, Error)}"
  shows "method_js fmt args s' =
       (if 0 \<le> n
        then Returns (s'\<lparr>stdout := stdout s' @
               [ClearLine,
                Write (concat (replicate (nat n) (ascii ''> ''))
                       @ formatBuffer s ty (format fmt args) @ [10])]\<rparr>)
        else Throws RangeError (s'\<lparr>stdout := stdout s' @ [ClearLine]\<rparr>))"
  using assms(2-)
  by (auto simp: log_def info_def warn_def error_def p_log_eq group_calls_level
        group_calls_formatBuffer n_def)

theorem indentation_after_group_calls_witness:
  "groupLevel (new_CustomConsole None None) = 0
   \<and> warn (\<lambda>args. []) [Str (ascii ''Inside collapsed'')]
       (group_calls (\<lambda>args. []) [Group None, GroupEnd, Group None, GroupCollapsed None]
          (new_CustomConsole None None))
     = Returns (new_CustomConsole None None
         \<lparr>groupLevel := 2,
          stdout := [ClearLine, Write (ascii ''> > Inside collapsed'' @ [10])]\<rparr>)"
  using indentation_after_group_calls [of "new_CustomConsole None None" _ "\<lambda>args. []"
          "[Group None, GroupEnd, Group None, GroupCollapsed None]" warn Warn
          "[Str (ascii ''Inside collapsed'')]", OF _ refl]
  by (simp add: new_CustomConsole_def format_def group_def groupCollapsed_def groupEnd_def
        ascii_def eval_nat_numeral)

text \<open>
  C6.  \<open>group\<close> with a label that is not empty writes the label at the new level;
  \<open>groupCollapsed\<close> with the same label writes nothing, since it passes no label
  on.  Both raise the level by one.
\<close>

theorem groupCollapsed_drops_label:
  assumes "0 \<le> groupLevel s + 1" and "label \<noteq> []"
  shows "group fmt (Some label) s =
           Returns (s\<lparr>groupLevel := groupLevel s + 1,
                      stdout := stdout s @
                        [ClearLine,
                         Write (concat (replicate (nat (groupLevel s + 1)) (ascii ''> ''))
                                @ formatBuffer s Log label @ [10])]\<rparr>)
         \<and> groupCollapsed fmt (Some label) s = Returns (s\<lparr>groupLevel := groupLevel s + 1\<rparr>)
         \<and> groupCollapsed fmt (Some label) s \<noteq> group fmt (Some label) s"
proof -
  have g: "group fmt (Some label) s =
           Returns (s\<lparr>groupLevel := groupLevel s + 1,
                      stdout := stdout s @
                        [ClearLine,
                         Write (concat (replicate (nat (groupLevel s + 1)) (ascii ''> ''))
                                @ formatBuffer s Log label @ [10])]\<rparr>)"
    using assms by (simp add: group_def log_def p_log_eq format_def Let_def)
  have c: "groupCollapsed fmt (Some label) s = Returns (s\<lparr>groupLevel := groupLevel s + 1\<rparr>)"
    by (simp add: groupCollapsed_def group_def Let_def)
  have "stdout (state_of (groupCollapsed fmt (Some label) s))
        \<noteq> stdout (state_of (group fmt (Some label) s))"
    unfolding g c by simp
  then have "groupCollapsed fmt (Some label) s \<noteq> group fmt (Some label) s"
    by auto
  with g c show ?thesis by simp
qed

theorem groupCollapsed_drops_label_witness:
  "group (\<lambda>args. []) (Some (ascii ''x'')) (new_CustomConsole None None) =
     Returns (new_CustomConsole None None
       \<lparr>groupLevel := 1, stdout := [ClearLine, Write (ascii ''> x'' @ [10])]\<rparr>)
   \<and> groupCollapsed (\<lambda>args. []) (Some (ascii ''x'')) (new_CustomConsole None None) =
     Returns (new_CustomConsole None None\<lparr>groupLevel := 1\<rparr>)"
  using groupCollapsed_drops_label [of "new_CustomConsole None None" "ascii ''x''" "\<lambda>args. []"]
  by (simp add: new_CustomConsole_def ascii_def)

subsection \<open>Counters\<close>

text \<open>
  C4.  On an instance that has counted nothing under \<open>toString\<close>, the first
  \<open>count('toString')\<close> does not store 1 and does not write \<open>toString: 1\<close>:
  \<open>this._counts['toString']\<close> reads the function \<open>Object.prototype.toString\<close>,
  which is truthy, so the count is not set to 0, and \<open>++\<close> turns the function into
  \<open>NaN\<close>.  The line is \<open>toString: NaN\<close>.
\<close>

theorem count_inherited_name_is_NaN:
  assumes "counts s (ascii ''toString'') = None" and "0 \<le> groupLevel s"
  shows "count (Some (ascii ''toString'')) s =
           Returns (s\<lparr>counts := (counts s)(ascii ''toString'' \<mapsto> NaN),
                      stdout := stdout s @
                        [ClearLine,
                         Write (concat (replicate (nat (groupLevel s)) (ascii ''> ''))
                                @ formatBuffer s Log (ascii ''toString: NaN'') @ [10])]\<rparr>)"
  using assms
  by (simp add: count_def get_count_def set_count_def Object_prototype_functions_def
        p_log_eq ascii_def)

theorem count_inherited_name_is_NaN_witness:
  "count (Some (ascii ''toString'')) (new_CustomConsole None None) =
     Returns (new_CustomConsole None None
       \<lparr>counts := [ascii ''toString'' \<mapsto> NaN],
        stdout := [ClearLine, Write (ascii ''toString: NaN'' @ [10])]\<rparr>)"
  using count_inherited_name_is_NaN [of "new_CustomConsole None None"]
  by (simp add: new_CustomConsole_def)

text \<open>The second call finds \<open>NaN\<close>, which is falsy, and starts from 0: it writes
  \<open>toString: 1\<close>.  Under \<open>__proto__\<close> nothing is ever stored.\<close>

lemma count_inherited_name_twice:
  "stdout (count_calls [Some (ascii ''toString''), Some (ascii ''toString'')]
             (new_CustomConsole None None)) =
     [ClearLine, Write (ascii ''toString: NaN'' @ [10]),
      ClearLine, Write (ascii ''toString: 1'' @ [10])]"
  by (simp add: count_def get_count_def set_count_def Object_prototype_functions_def
        p_log_eq ascii_def new_CustomConsole_def int_to_string_def digits.simps)

lemma count_proto:
  "count_calls [Some (ascii ''__proto__'')] (new_CustomConsole None None) =
     new_CustomConsole None None
       \<lparr>stdout := [ClearLine, Write (ascii ''__proto__: [object Object]'' @ [10])]\<rparr>"
  by (simp add: count_def get_count_def set_count_def
        p_log_eq ascii_def new_CustomConsole_def)

text \<open>
  For every other label the counters do count.  The first call under a label stores 1,
  a later one adds 1, and a call leaves every other label's count as it was; so in any
  sequence of calls under such labels the call that is the \<open>n\<close>-th under its label
  stores \<open>n\<close> and writes \<open>label: n\<close>.
\<close>

lemma count_first:
  assumes "label \<notin> set Object_prototype_functions" and "label \<noteq> ascii ''__proto__''"
    and "counts s label = None" and "0 \<le> groupLevel s"
  shows "count (Some label) s =
           Returns (s\<lparr>counts := (counts s)(label \<mapsto> Num 1),
                      stdout := stdout s @
                        [ClearLine,
                         Write (concat (replicate (nat (groupLevel s)) (ascii ''> ''))
                                @ formatBuffer s Log (label @ ascii '': '' @ int_to_string 1)
                                @ [10])]\<rparr>)"
  using assms by (simp add: count_def get_count_def set_count_def p_log_eq)

lemma count_next:
  assumes "label \<noteq> ascii ''__proto__''"
    and "counts s label = Some (Num n)" and "n \<noteq> 0" and "0 \<le> groupLevel s"
  shows "count (Some label) s =
           Returns (s\<lparr>counts := (counts s)(label \<mapsto> Num (n + 1)),
                      stdout := stdout s @
                        [ClearLine,
                         Write (concat (replicate (nat (groupLevel s)) (ascii ''> ''))
                                @ formatBuffer s Log (label @ ascii '': '' @ int_to_string (n + 1))
                                @ [10])]\<rparr>)"
  using assms by (simp add: count_def get_count_def set_count_def p_log_eq)

lemma count_default_label: "count None s = count (Some (ascii ''<no label>'')) s"
  by (simp add: count_def)

lemma count_other_label:
  "label' \<noteq> label \<Longrightarrow> counts (state_of (count (Some label) s)) label' = counts s label'"
  by (simp add: count_def get_count_def set_count_def p_log_eq Let_def)

lemma count_step_counts:
  assumes "a \<notin> set Object_prototype_functions" and "a \<noteq> ascii ''__proto__''"
    and "\<And>l. counts s l = (if c l = 0 then None else Some (Num (int (c l))))"
  shows "counts (state_of (count (Some a) s)) l =
           (if (c(a := Suc (c a))) l = 0 then None else Some (Num (int ((c(a := Suc (c a))) l))))"
proof (cases "l = a")
  case False
  then show ?thesis
    using assms(3) [of l] by (simp add: count_other_label)
next
  case True
  show ?thesis
  proof (cases "c a = 0")
    case True
    with assms(3) [of a] have "counts s a = None" by simp
    with assms(1,2) \<open>l = a\<close> True show ?thesis
      by (simp add: count_def get_count_def set_count_def p_log_eq Let_def)
  next
    case False
    with assms(3) [of a] have "counts s a = Some (Num (int (c a)))" by simp
    with assms(2) \<open>l = a\<close> False show ?thesis
      by (simp add: count_def get_count_def set_count_def p_log_eq Let_def)
  qed
qed

lemma counts_after_count_calls_from:
  assumes "\<And>a. a \<in> set labels \<Longrightarrow> a \<notin> set Object_prototype_functions \<and> a \<noteq> ascii ''__proto__''"
    and "\<And>l. counts s l = (if c l = 0 then None else Some (Num (int (c l))))"
  shows "counts (count_calls (map Some labels) s) l =
           (if c l + count_list labels l = 0 then None
            else Some (Num (int (c l + count_list labels l))))"
  using assms
proof (induction labels arbitrary: s c)
  case Nil
  then show ?case by simp
next
  case (Cons a labels)
  from Cons.prems(1) [of a] have own: "a \<notin> set Object_prototype_functions" "a \<noteq> ascii ''__proto__''"
    by simp_all
  have step: "counts (state_of (count (Some a) s)) l' =
           (if (c(a := Suc (c a))) l' = 0 then None else Some (Num (int ((c(a := Suc (c a))) l'))))"
    for l'
    by (rule count_step_counts [OF own Cons.prems(2)])
  have "counts (count_calls (map Some labels) (state_of (count (Some a) s))) l =
           (if (c(a := Suc (c a))) l + count_list labels l = 0 then None
            else Some (Num (int ((c(a := Suc (c a))) l + count_list labels l))))"
    by (rule Cons.IH [OF _ step]) (simp add: Cons.prems(1))
  then show ?case by simp
qed

lemma counts_after_count_calls:
  assumes "\<And>a. a \<in> set labels \<Longrightarrow> a \<notin> set Object_prototype_functions \<and> a \<noteq> ascii ''__proto__''"
    and "counts s = Map.empty"
  shows "counts (count_calls (map Some labels) s) l =
           (if count_list labels l = 0 then None else Some (Num (int (count_list labels l))))"
  using counts_after_count_calls_from [OF assms(1), of labels s "\<lambda>l. 0" l] assms(2) by simp

lemma count_keeps_level:
  "groupLevel (state_of (count a s)) = groupLevel s \<and> formatBuffer (state_of (count a s)) = formatBuffer s"
  by (simp add: count_def p_log_eq Let_def)

lemma count_calls_keep_level:
  "groupLevel (count_calls as s) = groupLevel s \<and> formatBuffer (count_calls as s) = formatBuffer s"
  by (induction as arbitrary: s) (simp_all add: count_keeps_level)

lemma count_nth_call:
  assumes "\<And>a. a \<in> set (label # labels) \<Longrightarrow> a \<notin> set Object_prototype_functions \<and> a \<noteq> ascii ''__proto__''"
    and "counts s0 = Map.empty" and "0 \<le> groupLevel s0"
    and "s = count_calls (map Some labels) s0"
    and "n = int (count_list labels label) + 1"
  shows "count (Some label) s =
           Returns (s\<lparr>counts := (counts s)(label \<mapsto> Num n),
                      stdout := stdout s @
                        [ClearLine,
                         Write (concat (replicate (nat (groupLevel s0)) (ascii ''> ''))
                                @ formatBuffer s0 Log (label @ ascii '': '' @ int_to_string n)
                                @ [10])]\<rparr>)"
proof -
  from assms(1) have own: "label \<notin> set Object_prototype_functions" "label \<noteq> ascii ''__proto__''"
    by simp_all
  have c: "counts s label =
           (if count_list labels label = 0 then None else Some (Num (int (count_list labels label))))"
    unfolding assms(4) by (rule counts_after_count_calls [OF _ assms(2)]) (simp add: assms(1))
  have lv: "groupLevel s = groupLevel s0" "formatBuffer s = formatBuffer s0"
    unfolding assms(4) by (simp_all add: count_calls_keep_level)
  show ?thesis
  proof (cases "count_list labels label = 0")
    case True
    with c have "counts s label = None" by simp
    from count_first [OF own this] assms(3) lv True assms(5) show ?thesis by simp
  next
    case False
    with c have "counts s label = Some (Num (int (count_list labels label)))" by simp
    from count_next [OF own(2) this] False assms(3) lv assms(5) show ?thesis by simp
  qed
qed

subsection \<open>Tables: the widths of the columns\<close>

text \<open>The loop \<open>max\<close>: with an evaluator that returns on every element, it returns,
  and \<open>Math.max\<close> of its result and a number \<open>c\<close> is the greatest of \<open>c\<close> and the
  evaluated numbers.\<close>

lemma max_loop_total:
  "map evaluator arr = map Inr ns \<Longrightarrow>
   \<exists>r. max_loop m arr evaluator = Inr r \<and> Math_max r c = Max (insert (Math_max m c) (set ns))"
proof (induction arr arbitrary: m ns)
  case Nil
  then show ?case by simp
next
  case (Cons el arr)
  then obtain n ns' where ns: "ns = n # ns'" and el: "evaluator el = Inr n"
    and rest: "map evaluator arr = map Inr ns'"
    by (cases ns) auto
  from Cons.IH [OF rest, of "Finite (Math_max m n)"]
  obtain r where r: "max_loop (Finite (Math_max m n)) arr evaluator = Inr r"
    and mx: "Math_max r c = Max (insert (Math_max (Finite (Math_max m n)) c) (set ns'))"
    by blast
  have "Max (insert (Math_max (Finite (Math_max m n)) c) (set ns'))
        = Max (insert (Math_max m c) (set ns))"
    unfolding ns by (cases m; cases "set ns' = {}") (auto simp: max.assoc max.left_commute max.commute)
  with r mx el show ?case by simp
qed

lemma max_loop_throws:
  "evaluator el = Inl e \<Longrightarrow> el \<in> set arr \<Longrightarrow> \<exists>e'. max_loop m arr evaluator = Inl e'"
proof (induction arr arbitrary: m)
  case Nil
  then show ?case by simp
next
  case (Cons a arr)
  then show ?case by (cases "evaluator a") auto
qed

lemma max_loop_returns:
  "max_loop m arr evaluator = Inr r \<Longrightarrow> \<exists>ns. map evaluator arr = map Inr ns"
proof (induction arr arbitrary: m)
  case Nil
  then show ?case by simp
next
  case (Cons a arr)
  then obtain n where a: "evaluator a = Inr n"
    by (cases "evaluator a") auto
  with Cons.prems have "max_loop (Finite (Math_max m n)) arr evaluator = Inr r" by simp
  from Cons.IH [OF this] obtain ns where "map evaluator arr = map Inr ns" by blast
  with a have "map evaluator (a # arr) = map Inr (n # ns)" by simp
  then show ?case by blast
qed

lemma max_loop_error:
  "max_loop m arr evaluator = Inl e \<Longrightarrow> \<exists>el\<in>set arr. evaluator el = Inl e"
proof (induction arr arbitrary: m)
  case Nil
  then show ?case by simp
next
  case (Cons a arr)
  then show ?case by (cases "evaluator a") auto
qed

text \<open>Nothing \<open>JSON.stringify\<close> returns holds a line feed, so the \<open>replace\<close> of
  \<open>stringify\<close> changes nothing.\<close>

lemma digits_no_line_feed: "10 \<notin> set (digits n)"
proof (induction n rule: digits.induct)
  case (1 n)
  then show ?case by (subst digits.simps) auto
qed


lemma int_to_string_no_line_feed: "10 \<notin> set (int_to_string i)"
  by (simp add: int_to_string_def digits_no_line_feed ascii_def)

lemma quote_unit_no_line_feed: "10 \<notin> set (quote_unit c)"
  by (simp add: quote_unit_def hex_digit_def ascii_def)

lemma quote_no_line_feed: "10 \<notin> set (quote s)"
  by (simp add: quote_def quote_unit_no_line_feed)

lemma join_no_line_feed:
  "10 \<notin> set sep \<Longrightarrow> (\<And>x. x \<in> set xs \<Longrightarrow> 10 \<notin> set x) \<Longrightarrow> 10 \<notin> set (join sep xs)"
  by (induction sep xs rule: join.induct) auto

lemma JSON_stringify_no_line_feed: "JSON_stringify v = Some str \<Longrightarrow> 10 \<notin> set str"
proof (induction v arbitrary: str rule: JSON_stringify.induct)
  case (7 xs)
  have "10 \<notin> set (join (ascii '','')
         (map (\<lambda>x. case JSON_stringify x of None \<Rightarrow> ascii ''null'' | Some t \<Rightarrow> t) xs))"
  proof (rule join_no_line_feed)
    show "10 \<notin> set (ascii '','')" by (simp add: ascii_def)
  next
    fix y assume "y \<in> set (map (\<lambda>x. case JSON_stringify x of None \<Rightarrow> ascii ''null'' | Some t \<Rightarrow> t) xs)"
    then obtain x where x: "x \<in> set xs"
      and y: "y = (case JSON_stringify x of None \<Rightarrow> ascii ''null'' | Some t \<Rightarrow> t)"
      by auto
    show "10 \<notin> set y"
    proof (cases "JSON_stringify x")
      case None
      with y show ?thesis by (simp add: ascii_def)
    next
      case (Some t)
      with "7.IH" [OF x Some] y show ?thesis by simp
    qed
  qed
  with "7.prems" show ?case by (auto simp: ascii_def)
next
  case (8 kvs)
  have "10 \<notin> set (join (ascii '','')
         (concat (map (\<lambda>(k, v). case JSON_stringify v of
                                  None \<Rightarrow> []
                                | Some t \<Rightarrow> [quote k @ ascii '':'' @ t]) kvs)))"
  proof (rule join_no_line_feed)
    show "10 \<notin> set (ascii '','')" by (simp add: ascii_def)
  next
    fix y assume "y \<in> set (concat (map (\<lambda>(k, v). case JSON_stringify v of
                                  None \<Rightarrow> []
                                | Some t \<Rightarrow> [quote k @ ascii '':'' @ t]) kvs))"
    then obtain k v t where kv: "(k, v) \<in> set kvs" and t: "JSON_stringify v = Some t"
      and y: "y = quote k @ ascii '':'' @ t"
      by (fastforce split: option.splits)
    from "8.IH" [OF kv refl t] have "10 \<notin> set t" .
    with y show "10 \<notin> set y" by (simp add: quote_no_line_feed ascii_def)
  qed
  with "8.prems" show ?case by (auto simp: ascii_def)
qed (auto simp: ascii_def int_to_string_no_line_feed quote_no_line_feed split: if_splits)

lemma stringify_eq: "stringify v = (case JSON_stringify v of None \<Rightarrow> Inl TypeError | Some str \<Rightarrow> Inr str)"
proof (cases "JSON_stringify v")
  case None
  then show ?thesis by (simp add: stringify_def)
next
  case (Some str)
  from JSON_stringify_no_line_feed [OF Some] have "filter (\<lambda>c. c \<noteq> 10) str = str"
    by (auto simp: filter_id_conv)
  with Some show ?thesis by (simp add: stringify_def)
qed

lemma stringify_all:
  "map JSON_stringify vs = map Some encodings \<Longrightarrow>
   map (\<lambda>el. case stringify el of Inl e \<Rightarrow> Inl e | Inr str \<Rightarrow> Inr (int (length str))) vs
     = map Inr (map (\<lambda>enc. int (length enc)) encodings)"
proof (induction vs arbitrary: encodings)
  case Nil
  then show ?case by simp
next
  case (Cons v vs)
  then show ?case by (cases encodings) (auto simp: stringify_eq)
qed

text \<open>
  C7.  When every value of the collection has a JSON encoding, the key column starts as
  wide as the longest key, measured on the key itself and not on its quoted form, and
  the value column as wide as the longest encoding; neither starts narrower than its
  header, \<open>(index)\<close> and \<open>Value\<close>.
\<close>

theorem column_widths_raw_keys_encoded_values:
  assumes "map JSON_stringify (Object_values data) = map Some encodings"
  shows "column_widths data =
           Inr (Max (insert (int (length (ascii ''(index)'')))
                        (set (map (\<lambda>key. int (length key)) (Object_keys data)))),
                Max (insert (int (length (ascii ''Value'')))
                        (set (map (\<lambda>enc. int (length enc)) encodings))))"
proof -
  let ?kc = "int (length (ascii ''(index)''))" and ?vc = "int (length (ascii ''Value''))"
  have "map (\<lambda>el. Inr (int (length el)) :: js_error + int) (Object_keys data)
          = map Inr (map (\<lambda>key. int (length key)) (Object_keys data))"
    by simp
  from max_loop_total [OF this, of NegInfinity ?kc]
  obtain rk where rk: "max_js (Object_keys data) (\<lambda>el. Inr (int (length el))) = Inr rk"
    and mk: "Math_max rk ?kc = Max (insert ?kc (set (map (\<lambda>key. int (length key)) (Object_keys data))))"
    by (auto simp: max_js_def)
  from max_loop_total [OF stringify_all [OF assms], of NegInfinity ?vc]
  obtain rv where rv: "max_js (Object_values data)
        (\<lambda>el. case stringify el of Inl e \<Rightarrow> Inl e | Inr str \<Rightarrow> Inr (int (length str))) = Inr rv"
    and mv: "Math_max rv ?vc = Max (insert ?vc (set (map (\<lambda>enc. int (length enc)) encodings)))"
    by (auto simp: max_js_def)
  show ?thesis
    unfolding column_widths_def Let_def rk rv by (simp only: sum.case mk mv)
qed

theorem column_widths_witness:
  "column_widths (Object [(ascii ''reallyLongKey'', Str (ascii ''reallyLongValue''))]) = Inr (13, 17)"
  using column_widths_raw_keys_encoded_values
          [of "Object [(ascii ''reallyLongKey'', Str (ascii ''reallyLongValue''))]"
              "[quote (ascii ''reallyLongValue'')]"]
  by (simp add: Object_values_def Object_keys_def quote_def quote_unit_def ascii_def)

lemma Math_max_ge: "c \<le> Math_max r c"
  by (cases r) simp_all

lemma column_widths_at_least:
  "column_widths data = Inr (k0, v0) \<Longrightarrow> 7 \<le> k0 \<and> 5 \<le> v0"
  using Math_max_ge [of "7" ] Math_max_ge [of "5"]
  by (auto simp: column_widths_def Let_def ascii_def split: sum.splits)

lemma column_widths_encodings:
  assumes "column_widths data = Inr (k0, v0)"
  shows "\<exists>encodings. map JSON_stringify (Object_values data) = map Some encodings"
proof -
  from assms obtain rv where "max_js (Object_values data)
        (\<lambda>el. case stringify el of Inl e \<Rightarrow> Inl e | Inr str \<Rightarrow> Inr (int (length str))) = Inr rv"
    by (auto simp: column_widths_def Let_def split: sum.splits)
  from max_loop_returns [OF this [unfolded max_js_def]]
  obtain ns where ns: "map (\<lambda>el. case stringify el of Inl e \<Rightarrow> Inl e | Inr str \<Rightarrow> Inr (int (length str)))
                         (Object_values data) = map Inr ns"
    by blast
  have "\<exists>encodings. map JSON_stringify vs = map Some encodings"
    if "map (\<lambda>el. case stringify el of Inl e \<Rightarrow> Inl e | Inr str \<Rightarrow> Inr (int (length str))) vs
          = map Inr ns" for vs :: "jsvalue list" and ns :: "int list"
    using that
  proof (induction vs arbitrary: ns)
    case Nil
    then show ?case by simp
  next
    case (Cons v vs)
    then obtain n ns' where ns: "ns = n # ns'" by (cases ns) auto
    with Cons.prems obtain enc where enc: "JSON_stringify v = Some enc"
      by (cases "JSON_stringify v") (auto simp: stringify_eq)
    from Cons.prems ns Cons.IH [of ns'] obtain encs where "map JSON_stringify vs = map Some encs"
      by auto
    with enc have "map JSON_stringify (v # vs) = map Some (enc # encs)" by simp
    then show ?case by blast
  qed
  from this [OF ns] show ?thesis .
qed

lemma column_widths_empty:
  "data = Array [] \<or> data = Object [] \<Longrightarrow> column_widths data = Inr (7, 5)"
  by (auto simp: column_widths_def Object_keys_def Object_values_def max_js_def ascii_def)

subsection \<open>Tables: fitting the width\<close>

lemma fit_fits: "fit w k v = (k', v') \<Longrightarrow> k' + v' + 7 \<le> w"
proof (induction w k v rule: fit.induct)
  case (1 w keyWidth valueWidth)
  then show ?case
    by (subst (asm) (3) fit.simps) (auto split: if_splits)
qed

lemma fit_nonneg:
  "7 \<le> w \<Longrightarrow> 0 \<le> k \<Longrightarrow> 0 \<le> v \<Longrightarrow> fit w k v = (k', v') \<Longrightarrow> 0 \<le> k' \<and> 0 \<le> v'"
proof (induction w k v rule: fit.induct)
  case (1 w keyWidth valueWidth)
  show ?case
  proof (cases "keyWidth + valueWidth + 7 > w")
    case False
    with "1.prems" show ?thesis by (simp add: fit.simps)
  next
    case over: True
    show ?thesis
    proof (cases "valueWidth > keyWidth")
      case True
      with over "1.prems" have "fit w keyWidth (valueWidth - 1) = (k', v')"
        by (simp add: fit.simps)
      moreover from True "1.prems" have "0 \<le> valueWidth - 1" by simp
      ultimately show ?thesis
        using "1.IH"(1) [OF over True] "1.prems" by simp
    next
      case False
      with over "1.prems" have "fit w (keyWidth - 1) valueWidth = (k', v')"
        by (simp add: fit.simps)
      moreover from False over "1.prems" have "0 \<le> keyWidth - 1" by simp
      ultimately show ?thesis
        using "1.IH"(2) [OF over False] "1.prems" by simp
    qed
  qed
qed

lemma fit_unchanged: "k + v + 7 \<le> w \<Longrightarrow> fit w k v = (k, v)"
  by (simp add: fit.simps)

lemma fit_below: "fit w k v = (k', v') \<Longrightarrow> k' \<le> k \<and> v' \<le> v"
proof (induction w k v rule: fit.induct)
  case (1 w keyWidth valueWidth)
  then show ?case
    by (subst (asm) (3) fit.simps) (auto split: if_splits)
qed

text \<open>
  C2, as the code has it.  For every collection and every \<open>outWidth\<close> of at least 7
  the loop ends with a key width and a value width that are not negative and with a
  total width of at most \<open>outWidth\<close>.  The widths are not held at the lengths of the
  headers: they go below 7 and 5 when the width asks for it.
\<close>

theorem fit_widths_not_negative:
  assumes "column_widths data = Inr (k0, v0)"
    and "7 \<le> w"
    and "fit w k0 v0 = (keyWidth, valueWidth)"
  shows "0 \<le> keyWidth \<and> 0 \<le> valueWidth \<and> keyWidth + valueWidth + 7 \<le> w"
proof -
  from column_widths_at_least [OF assms(1)] have "0 \<le> k0" "0 \<le> v0" by simp_all
  from fit_nonneg [OF assms(2) this assms(3)] fit_fits [OF assms(3)]
  show ?thesis by simp
qed

theorem fit_widths_not_negative_witness:
  "column_widths (Array [Str (ascii ''a long string value'')]) = Inr (7, 21)
   \<and> fit 7 7 21 = (0, 0) \<and> fit 20 7 21 = (6, 7)"
  using fit_widths_not_negative [of "Array [Str (ascii ''a long string value'')]" 7 21 7 0 0]
    fit_widths_not_negative [of "Array [Str (ascii ''a long string value'')]" 7 21 20 6 7]
  by (simp add: column_widths_def Object_keys_def Object_values_def max_js_def stringify_def
        quote_def quote_unit_def ascii_def digits.simps fit.simps)

text \<open>With \<open>outWidth = 1\<close> the loop takes both widths of an empty table to \<open>-3\<close>.\<close>

theorem narrow_table_counterexample:
  "(0::int) < 1 \<and> column_widths (Array []) = Inr (7, 5) \<and> fit 1 7 5 = (- 3, - 3)"
  by (simp add: column_widths_empty fit.simps)

subsection \<open>Tables: what is written\<close>

text \<open>
  C8.  \<open>table\<close> of a value that is neither an array nor an object returns at once:
  nothing is written, nothing is thrown, and the instance is as it was.
\<close>

theorem table_ignores_non_collections:
  assumes "\<And>xs. data \<noteq> Array xs" and "\<And>kvs. data \<noteq> Object kvs"
  shows "table fmt data s = Returns s"
  using assms by (cases data) (auto simp: table_def)

theorem table_ignores_non_collections_witness:
  "table (\<lambda>args. []) (Str (ascii ''hello'')) (new_CustomConsole None None)
     = Returns (new_CustomConsole None None)
   \<and> table (\<lambda>args. []) (Number 3) (new_CustomConsole None None)
     = Returns (new_CustomConsole None None)
   \<and> table (\<lambda>args. []) Undefined (new_CustomConsole None None)
     = Returns (new_CustomConsole None None)
   \<and> table (\<lambda>args. []) Null (new_CustomConsole None None)
     = Returns (new_CustomConsole None None)
   \<and> table (\<lambda>args. []) (Boolean True) (new_CustomConsole None None)
     = Returns (new_CustomConsole None None)"
  using table_ignores_non_collections [of "Str (ascii ''hello'')" "\<lambda>args. []" "new_CustomConsole None None"]
    table_ignores_non_collections [of "Number 3" "\<lambda>args. []" "new_CustomConsole None None"]
    table_ignores_non_collections [of Undefined "\<lambda>args. []" "new_CustomConsole None None"]
    table_ignores_non_collections [of Null "\<lambda>args. []" "new_CustomConsole None None"]
    table_ignores_non_collections [of "Boolean True" "\<lambda>args. []" "new_CustomConsole None None"]
  by simp

lemma length_pad: "0 \<le> width \<Longrightarrow> int (length (pad str width)) = width"
  by (auto simp: pad_def substring0_def)

lemma log_all_strings:
  "0 \<le> groupLevel s \<Longrightarrow>
   log_all fmt (map Inr strs) s =
     Returns (s\<lparr>stdout := stdout s @
        concat (map (\<lambda>str. [ClearLine,
                            Write (concat (replicate (nat (groupLevel s)) (ascii ''> ''))
                                   @ formatBuffer s Log str @ [10])]) strs)\<rparr>)"
proof (induction strs arbitrary: s)
  case Nil
  then show ?case by simp
next
  case (Cons str strs)
  let ?s1 = "s\<lparr>stdout := stdout s @
             [ClearLine,
              Write (concat (replicate (nat (groupLevel s)) (ascii ''> ''))
                     @ formatBuffer s Log str @ [10])]\<rparr>"
  have "log fmt [Str str] s = Returns ?s1"
    using Cons.prems by (simp add: log_def p_log_eq format_def)
  moreover have "0 \<le> groupLevel ?s1" using Cons.prems by simp
  ultimately show ?case
    using Cons.IH [of ?s1] by simp
qed

lemma length_Object_keys: "length (Object_keys data) = length (Object_values data)"
  by (cases data) (simp_all add: Object_keys_def Object_values_def)

lemma get_property_in_values:
  assumes "key \<in> set (Object_keys data)"
  shows "get_property data key \<in> set (Object_values data)"
proof -
  have "map fst (zip (Object_keys data) (Object_values data)) = Object_keys data"
    by (simp add: length_Object_keys)
  then have "fst ` set (zip (Object_keys data) (Object_values data)) = set (Object_keys data)"
    by (metis set_map)
  with assms have "key \<in> fst ` set (zip (Object_keys data) (Object_values data))"
    by simp
  then obtain v where v: "map_of (zip (Object_keys data) (Object_values data)) key = Some v"
    by (meson domD domI map_of_eq_None_iff not_None_eq)
  then have "v \<in> set (Object_values data)"
    by (meson in_set_zipE map_of_SomeD)
  with v show ?thesis by (simp add: get_property_def)
qed

lemma data_rows:
  assumes "\<And>key. key \<in> set keys \<Longrightarrow> \<exists>enc. JSON_stringify (get_property data key) = Some enc"
    and "0 \<le> keyWidth" and "0 \<le> valueWidth"
  shows "\<exists>rows. map (\<lambda>key. case stringify (get_property data key) of
                        Inl e \<Rightarrow> Inl e
                      | Inr v \<Rightarrow>
                          Inr (ascii ''| '' @ pad key keyWidth @ ascii '' | ''
                               @ pad v valueWidth @ ascii '' |'')) keys = map Inr rows
           \<and> length rows = length keys
           \<and> (\<forall>str\<in>set rows. int (length str) = keyWidth + valueWidth + 7)"
  using assms(1)
proof (induction keys)
  case Nil
  then show ?case by simp
next
  case (Cons key keys)
  then obtain rows where rows: "map (\<lambda>key. case stringify (get_property data key) of
                        Inl e \<Rightarrow> Inl e
                      | Inr v \<Rightarrow>
                          Inr (ascii ''| '' @ pad key keyWidth @ ascii '' | ''
                               @ pad v valueWidth @ ascii '' |'')) keys = map Inr rows"
    and len: "length rows = length keys"
    and wid: "\<forall>str\<in>set rows. int (length str) = keyWidth + valueWidth + 7"
    by auto
  from Cons.prems obtain enc where enc: "JSON_stringify (get_property data key) = Some enc"
    by auto
  let ?row = "ascii ''| '' @ pad key keyWidth @ ascii '' | '' @ pad enc valueWidth @ ascii '' |''"
  have "int (length ?row) = keyWidth + valueWidth + 7"
    using length_pad [OF assms(2), of key] length_pad [OF assms(3), of enc]
    by (simp add: ascii_def)
  with rows len wid enc
  have "map (\<lambda>key. case stringify (get_property data key) of
                        Inl e \<Rightarrow> Inl e
                      | Inr v \<Rightarrow>
                          Inr (ascii ''| '' @ pad key keyWidth @ ascii '' | ''
                               @ pad v valueWidth @ ascii '' |'')) (key # keys) = map Inr (?row # rows)
        \<and> length (?row # rows) = length (key # keys)
        \<and> (\<forall>str\<in>set (?row # rows). int (length str) = keyWidth + valueWidth + 7)"
    by (simp add: stringify_eq)
  then show ?case by blast
qed

lemma table_rows_strings:
  assumes "\<And>key. key \<in> set keys \<Longrightarrow> \<exists>enc. JSON_stringify (get_property data key) = Some enc"
    and "0 \<le> keyWidth" and "0 \<le> valueWidth"
  shows "\<exists>strs. table_rows data keys keyWidth valueWidth = map Inr strs
           \<and> length strs = length keys + 4
           \<and> (\<forall>str\<in>set strs. int (length str) = keyWidth + valueWidth + 7)"
proof -
  from data_rows [OF assms] obtain rows where rows: "map (\<lambda>key. case stringify (get_property data key) of
                        Inl e \<Rightarrow> Inl e
                      | Inr v \<Rightarrow>
                          Inr (ascii ''| '' @ pad key keyWidth @ ascii '' | ''
                               @ pad v valueWidth @ ascii '' |'')) keys = map Inr rows"
    and len: "length rows = length keys"
    and wid: "\<forall>str\<in>set rows. int (length str) = keyWidth + valueWidth + 7"
    by blast
  let ?total = "keyWidth + valueWidth + 7"
  let ?top = "replicate (nat ?total) 95"
  let ?header = "ascii ''| '' @ pad (ascii ''(index)'') keyWidth @ ascii '' | ''
                 @ pad (ascii ''Value'') valueWidth @ ascii '' |''"
  let ?sep = "ascii ''|'' @ replicate (nat (keyWidth + 2)) 45 @ ascii ''|''
              @ replicate (nat (valueWidth + 2)) 45 @ ascii ''|''"
  let ?bottom = "replicate (nat ?total) 8254"
  let ?strs = "[?top, ?header, ?sep] @ rows @ [?bottom]"
  have "table_rows data keys keyWidth valueWidth = map Inr ?strs"
    using assms(2,3) by (simp add: table_rows_def Let_def rows repeat_def ascii_def)
  moreover have "length ?strs = length keys + 4"
    by (simp add: len)
  moreover have "int (length ?header) = ?total"
    using length_pad [OF assms(2)] length_pad [OF assms(3)] by (simp add: ascii_def)
  moreover have "int (length ?sep) = ?total" "int (length ?top) = ?total" "int (length ?bottom) = ?total"
    using assms(2,3) by (simp_all add: ascii_def)
  ultimately have "table_rows data keys keyWidth valueWidth = map Inr ?strs
           \<and> length ?strs = length keys + 4
           \<and> (\<forall>str\<in>set ?strs. int (length str) = keyWidth + valueWidth + 7)"
    using wid by (simp del: length_append length_replicate)
  then show ?thesis by blast
qed

text \<open>
  C10.  When the widths the table is drawn with are not negative (and the group level is
  not negative, so that lines are written at all), \<open>table\<close> of an array or object
  returns after one \<open>log\<close> for each of its strings: the two borders, the header, the
  separator and one row for each key.  Each of these strings is
  \<open>keyWidth + valueWidth + 7\<close> long.
\<close>

theorem table_lines_have_total_width:
  assumes "data = Array xs \<or> data = Object kvs"
    and "column_widths data = Inr (k0, v0)"
    and "fit (outWidth s) k0 v0 = (keyWidth, valueWidth)"
    and "0 \<le> keyWidth" and "0 \<le> valueWidth"
    and "0 \<le> groupLevel s"
  shows "\<exists>strs.
           table_rows data (Object_keys data) keyWidth valueWidth = map Inr strs
         \<and> table fmt data s =
             Returns (s\<lparr>stdout := stdout s @
               concat (map (\<lambda>str. [ClearLine,
                                   Write (concat (replicate (nat (groupLevel s)) (ascii ''> ''))
                                          @ formatBuffer s Log str @ [10])]) strs)\<rparr>)
         \<and> length strs = length (Object_keys data) + 4
         \<and> (\<forall>str\<in>set strs. int (length str) = keyWidth + valueWidth + 7)"
proof -
  from column_widths_encodings [OF assms(2)]
  obtain encodings where encs: "map JSON_stringify (Object_values data) = map Some encodings"
    by blast
  have enc: "\<exists>enc. JSON_stringify (get_property data key) = Some enc"
    if "key \<in> set (Object_keys data)" for key
  proof -
    from get_property_in_values [OF that]
    have "JSON_stringify (get_property data key) \<in> set (map JSON_stringify (Object_values data))"
      by simp
    then show ?thesis unfolding encs by auto
  qed
  from table_rows_strings [OF enc assms(4,5)]
  obtain strs where strs: "table_rows data (Object_keys data) keyWidth valueWidth = map Inr strs"
    and len: "length strs = length (Object_keys data) + 4"
    and wid: "\<forall>str\<in>set strs. int (length str) = keyWidth + valueWidth + 7"
    by blast
  from assms(1) have guard: "\<not> (\<not> truthy data \<or> typeof data \<noteq> ''object'')"
    by auto
  have "table fmt data s = log_all fmt (map Inr strs) s"
    unfolding table_def using guard by (simp add: assms(2,3) strs)
  with log_all_strings [OF assms(6), of fmt strs] strs len wid show ?thesis
    by auto
qed

theorem table_lines_have_total_width_witness:
  "table (\<lambda>args. []) (Array [Number 4]) (new_CustomConsole None None) =
     Returns (new_CustomConsole None None
       \<lparr>stdout := [ClearLine, Write (ascii ''___________________'' @ [10]),
                   ClearLine, Write (ascii ''| (index) | Value |'' @ [10]),
                   ClearLine, Write (ascii ''|---------|-------|'' @ [10]),
                   ClearLine, Write (ascii ''| 0       | 4     |'' @ [10]),
                   ClearLine, Write (replicate 19 8254 @ [10])]\<rparr>)
   \<and> int (length (ascii ''| 0       | 4     |'')) = 7 + 5 + 7"
proof -
  let ?s = "new_CustomConsole None None"
  have d: "Array [Number 4] = Array [Number 4] \<or> Array [Number 4] = Object []"
    by simp
  have cw: "column_widths (Array [Number 4]) = Inr (7, 5)"
    by (simp add: column_widths_def Object_keys_def Object_values_def max_js_def stringify_def
          int_to_string_def digits.simps ascii_def)
  have f: "fit (outWidth ?s) 7 5 = (7, 5)"
    by (simp add: new_CustomConsole_def fit_unchanged)
  have lv: "0 \<le> groupLevel ?s"
    by (simp add: new_CustomConsole_def)
  from table_lines_have_total_width [OF d cw f _ _ lv, of "\<lambda>args. []"]
  obtain strs where rows: "table_rows (Array [Number 4]) (Object_keys (Array [Number 4])) 7 5 = map Inr strs"
    and t: "table (\<lambda>args. []) (Array [Number 4]) ?s =
             Returns (?s\<lparr>stdout := stdout ?s @
               concat (map (\<lambda>str. [ClearLine,
                                   Write (concat (replicate (nat (groupLevel ?s)) (ascii ''> ''))
                                          @ formatBuffer ?s Log str @ [10])]) strs)\<rparr>)"
    by auto
  have "table_rows (Array [Number 4]) (Object_keys (Array [Number 4])) 7 5 =
     map Inr [ascii ''___________________'', ascii ''| (index) | Value |'',
              ascii ''|---------|-------|'', ascii ''| 0       | 4     |'', replicate 19 8254]"
    by (simp add: table_rows_def Object_keys_def Object_values_def get_property_def pad_def
          repeat_def stringify_def int_to_string_def digits.simps ascii_def eval_nat_numeral)
  with rows have "map Inr strs = (map Inr [ascii ''___________________'',
              ascii ''| (index) | Value |'', ascii ''|---------|-------|'',
              ascii ''| 0       | 4     |'', replicate 19 8254] :: (js_error + jsstring) list)"
    by (simp only:)
  then have "strs = [ascii ''___________________'', ascii ''| (index) | Value |'',
              ascii ''|---------|-------|'', ascii ''| 0       | 4     |'', replicate 19 8254]"
    by (simp only: inj_map_eq_map [OF inj_Inr])
  with t show ?thesis
    by (simp add: new_CustomConsole_def ascii_def)
qed

lemma table_rows_empty:
  "data = Array [] \<or> data = Object [] \<Longrightarrow>
   table_rows data (Object_keys data) 7 5 =
     map Inr [ascii ''___________________'', ascii ''| (index) | Value |'',
              ascii ''|---------|-------|'', replicate 19 8254]"
  by (auto simp: table_rows_def Object_keys_def pad_def repeat_def ascii_def eval_nat_numeral)

text \<open>
  C9, as the code has it.  With \<open>outWidth\<close> of at least 19 (and a group level that is
  not negative) \<open>table\<close> of an empty array or object writes four lines: the top
  border, the header \<open>| (index) | Value |\<close>, the separator and the bottom border.
\<close>

theorem empty_table_four_lines:
  assumes "data = Array [] \<or> data = Object []"
    and "19 \<le> outWidth s"
    and "0 \<le> groupLevel s"
  shows "table fmt data s =
           Returns (s\<lparr>stdout := stdout s @
             concat (map (\<lambda>str. [ClearLine,
                                 Write (concat (replicate (nat (groupLevel s)) (ascii ''> ''))
                                        @ formatBuffer s Log str @ [10])])
                      [ascii ''___________________'',
                       ascii ''| (index) | Value |'',
                       ascii ''|---------|-------|'',
                       replicate 19 8254])\<rparr>)"
proof -
  from assms(1) have guard: "\<not> (\<not> truthy data \<or> typeof data \<noteq> ''object'')"
    by auto
  from assms(2) have "fit (outWidth s) 7 5 = (7, 5)"
    by (simp add: fit_unchanged)
  then have "table fmt data s =
      log_all fmt (map Inr [ascii ''___________________'', ascii ''| (index) | Value |'',
              ascii ''|---------|-------|'', replicate 19 8254]) s"
    unfolding table_def using guard
    by (simp add: column_widths_empty [OF assms(1)] table_rows_empty [OF assms(1)])
  then show ?thesis
    by (simp only: log_all_strings [OF assms(3)])
qed

theorem empty_table_four_lines_witness:
  "table (\<lambda>args. []) (Array []) (new_CustomConsole None None) =
     Returns (new_CustomConsole None None
       \<lparr>stdout := [ClearLine, Write (ascii ''___________________'' @ [10]),
                   ClearLine, Write (ascii ''| (index) | Value |'' @ [10]),
                   ClearLine, Write (ascii ''|---------|-------|'' @ [10]),
                   ClearLine, Write (replicate 19 8254 @ [10])]\<rparr>)
   \<and> table (\<lambda>args. []) (Object []) (new_CustomConsole None None) =
       table (\<lambda>args. []) (Array []) (new_CustomConsole None None)"
  using empty_table_four_lines [of "Array []" "new_CustomConsole None None" "\<lambda>args. []"]
        empty_table_four_lines [of "Object []" "new_CustomConsole None None" "\<lambda>args. []"]
  by (simp add: new_CustomConsole_def)

text \<open>With \<open>outWidth = 10\<close> the header of the empty table is cut to the widths 1
  and 2.\<close>

theorem narrow_empty_table_counterexample:
  "table (\<lambda>args. []) (Array []) (new_CustomConsole (Some 10) None) =
     Returns (new_CustomConsole (Some 10) None
       \<lparr>stdout := [ClearLine, Write (ascii ''__________'' @ [10]),
                   ClearLine, Write (ascii ''| ( | Va |'' @ [10]),
                   ClearLine, Write (ascii ''|---|----|'' @ [10]),
                   ClearLine, Write (replicate 10 8254 @ [10])]\<rparr>)
   \<and> ascii ''| ( | Va |'' \<noteq> ascii ''| (index) | Value |''"
proof -
  have f: "fit 10 7 5 = (1, 2)"
    by (simp add: fit.simps)
  have "table_rows (Array []) (Object_keys (Array [])) 1 2 =
     map Inr [ascii ''__________'', ascii ''| ( | Va |'', ascii ''|---|----|'', replicate 10 8254]"
    by (simp add: table_rows_def Object_keys_def pad_def substring0_def repeat_def ascii_def
          eval_nat_numeral)
  then have "table (\<lambda>args. []) (Array []) (new_CustomConsole (Some 10) None) =
      log_all (\<lambda>args. []) (map Inr [ascii ''__________'', ascii ''| ( | Va |'',
         ascii ''|---|----|'', replicate 10 8254]) (new_CustomConsole (Some 10) None)"
    by (simp add: table_def column_widths_empty new_CustomConsole_def f)
  also have "\<dots> = Returns (new_CustomConsole (Some 10) None
       \<lparr>stdout := [ClearLine, Write (ascii ''__________'' @ [10]),
                   ClearLine, Write (ascii ''| ( | Va |'' @ [10]),
                   ClearLine, Write (ascii ''|---|----|'' @ [10]),
                   ClearLine, Write (replicate 10 8254 @ [10])]\<rparr>)"
    by (subst log_all_strings) (simp_all add: new_CustomConsole_def)
  finally have "table (\<lambda>args. []) (Array []) (new_CustomConsole (Some 10) None) =
     Returns (new_CustomConsole (Some 10) None
       \<lparr>stdout := [ClearLine, Write (ascii ''__________'' @ [10]),
                   ClearLine, Write (ascii ''| ( | Va |'' @ [10]),
                   ClearLine, Write (ascii ''|---|----|'' @ [10]),
                   ClearLine, Write (replicate 10 8254 @ [10])]\<rparr>)" .
  moreover have "ascii ''| ( | Va |'' \<noteq> ascii ''| (index) | Value |''"
    by (simp add: ascii_def)
  ultimately show ?thesis by blast
qed

subsection \<open>Tables: what is thrown\<close>

text \<open>
  C5.  \<open>table([undefined])\<close> throws: \<open>JSON.stringify(undefined)\<close> is \<open>undefined\<close>,
  and \<open>stringify\<close> calls \<open>replace\<close> on it.  The throw comes while the widths are
  computed, before anything is written.
\<close>

theorem table_throws_on_undefined_element:
  "table fmt (Array [Undefined]) s = Throws TypeError s"
  by (simp add: table_def column_widths_def Object_keys_def Object_values_def max_js_def
        stringify_def)

theorem table_throws_on_undefined_element_witness:
  "table (\<lambda>args. []) (Array [Undefined]) (new_CustomConsole None None)
     = Throws TypeError (new_CustomConsole None None)"
  using table_throws_on_undefined_element [of "\<lambda>args. []" "new_CustomConsole None None"]
  by simp

text \<open>The same holds for every array or object with a value that has no JSON encoding.\<close>

lemma table_throws_without_encoding:
  assumes "data = Array xs \<or> data = Object kvs"
    and "v \<in> set (Object_values data)"
    and "JSON_stringify v = None"
  shows "table fmt data s = Throws TypeError s"
proof -
  let ?ev = "\<lambda>el. case stringify el of Inl e \<Rightarrow> Inl e | Inr str \<Rightarrow> Inr (int (length str))"
  from assms(3) have "?ev v = Inl TypeError"
    by (simp add: stringify_def)
  from max_loop_throws [of ?ev v TypeError "Object_values data" NegInfinity, OF this assms(2)]
  obtain e where e: "max_js (Object_values data) ?ev = Inl e"
    by (auto simp: max_js_def)
  from max_loop_error [of NegInfinity "Object_values data" ?ev e] e
  obtain el where "?ev el = Inl e" by (auto simp: max_js_def)
  then have "e = TypeError"
    by (auto simp: stringify_def split: option.splits sum.splits)
  with e have mv: "max_js (Object_values data) ?ev = Inl TypeError" by simp
  obtain rk where rk: "max_js (Object_keys data) (\<lambda>el. Inr (int (length el))) = Inr rk"
    using max_loop_total [of "\<lambda>el. Inr (int (length el))" "Object_keys data"
            "map (\<lambda>key. int (length key)) (Object_keys data)" NegInfinity 0]
    by (auto simp: max_js_def)
  have "column_widths data = Inl TypeError"
    unfolding column_widths_def Let_def rk mv by simp
  with assms(1) show ?thesis
    by (auto simp: table_def)
qed

text \<open>With \<open>outWidth = 1\<close> the separator of an empty table asks for \<open>'-'.repeat(-1)\<close>:
  a \<open>RangeError\<close>, after the border and the header were written.\<close>

lemma table_throws_on_width_one:
  "table (\<lambda>args. []) (Array []) (new_CustomConsole (Some 1) None) =
     Throws RangeError (new_CustomConsole (Some 1) None
       \<lparr>stdout := [ClearLine, Write (ascii ''_'' @ [10]),
                   ClearLine, Write (ascii ''|  |  |'' @ [10])]\<rparr>)"
proof -
  have f: "fit 1 7 5 = (- 3, - 3)"
    by (simp add: fit.simps)
  show ?thesis
    by (simp add: table_def column_widths_empty new_CustomConsole_def f table_rows_def
          Object_keys_def pad_def substring0_def repeat_def ascii_def log_def p_log_eq format_def)
qed

end
